theory Spec2Isabelle
  imports Main
begin

section \<open>The data model\<close>

text \<open>
  \<open>AppError\<close> is the error value of \<open>@safelytyped/core-types\<close>; the sources never look
  inside one, so the type stays opaque.
\<close>

typedecl AppError

text \<open>
  An \<open>onError\<close> handler has the type \<open>(e: AppError) => never\<close>: it does not return, it
  throws. The model maps the error it is handed to the error it throws.
  \<open>THROW_THE_ERROR\<close> is the default handler: it throws the error it is given.
\<close>

type_synonym OnError = "AppError \<Rightarrow> AppError"

definition THROW_THE_ERROR :: OnError where
  "THROW_THE_ERROR e = e"

text \<open>\<open>path.ParsedPath\<close>: the five strings that \<open>path.parse()\<close> returns.\<close>

record ParsedPath =
  pp_root :: string
  pp_dir :: string
  pp_base :: string
  pp_name :: string
  pp_ext :: string

text \<open>
  \<open>PathApi\<close> (\<open>@safelytyped/node-pathapi\<close>) is the interface of NodeJS's \<open>path\<close> module.
  These are the operations the \<open>Filepath\<close> class calls; variadic operations take the list
  of their arguments, an optional argument is an \<open>option\<close>. The field \<open>normalize_path\<close>
  is the interface's \<open>normalize\<close>.
\<close>

record PathApi =
  normalize_path :: "string \<Rightarrow> string"
  join :: "string list \<Rightarrow> string"
  resolve :: "string list \<Rightarrow> string"
  dirname :: "string \<Rightarrow> string"
  basename :: "string \<Rightarrow> string option \<Rightarrow> string"
  extname :: "string \<Rightarrow> string"
  isAbsolute :: "string \<Rightarrow> bool"
  parse :: "string \<Rightarrow> ParsedPath"

text \<open>
  \<open>Partial<MakeFilepathOptions>\<close>: every option may be left out (\<open>None\<close> is JavaScript's
  \<open>undefined\<close>, which is what makes a destructuring default apply).
\<close>

record MakeFilepathOptions =
  onError :: "OnError option"
  pathApi :: "PathApi option"
  base :: "string option"

definition no_options :: MakeFilepathOptions where
  "no_options = \<lparr>onError = None, pathApi = None, base = None\<rparr>"

text \<open>
  A \<open>ParsedPath\<close> is a JavaScript object: it lives in the store, its fields can be
  assigned, and a variable or a field holds a reference to it. The store is the list of
  the objects allocated so far, and a reference is an index into it.
\<close>

type_synonym ref = nat

type_synonym store = "ParsedPath list"

text \<open>
  A \<open>Filepath\<close> object: \<open>fp_value\<close> is the inherited \<open>_value\<close>, \<open>fp_base\<close> is \<open>#_base\<close>,
  \<open>fp_pathApi\<close> is \<open>#_pathApi\<close> and \<open>fp_parts\<close> is the cache \<open>#_parts\<close>, a reference to
  a \<open>ParsedPath\<close> object or \<open>undefined\<close>. The earlier revision of the class
  (\<open>src/v1/Filepath/Filepath.ts\<close>) has no cache field; there \<open>fp_parts\<close> stays \<open>None\<close>.
\<close>

record Filepath =
  fp_value :: string
  fp_base :: "string option"
  fp_pathApi :: PathApi
  fp_parts :: "ref option"

section \<open>Validation\<close>

text \<open>
  \<open>validateFilepathData(input, { path })\<close> returns an \<open>AppErrorOr<string>\<close>: \<open>Inl\<close> is an
  \<open>AppError\<close>, \<open>Inr\<close> the accepted string. Its body is the single statement
  \<open>return input\<close>.
\<close>

definition validateFilepathData :: "string \<Rightarrow> string option \<Rightarrow> AppError + string" where
  "validateFilepathData input dataPath = Inr input"

text \<open>
  Modelled from the spec: \<open>mustBeFilepathData\<close> is imported by the class from
  \<open>./mustBeFilepathData\<close>, which is not among the sources. The specification (sections 4.1
  and 7) and the documentation of the constructor (\<open>If input fails validation, we pass an
  AppError to onError()\<close>) say what it does: the candidate string is passed through the
  validator; when the validator rejects it, the \<open>onError\<close> handler is invoked with the
  error, and the handler aborts by throwing. \<open>Inl\<close> is the thrown error; it is produced
  by the handler and by nothing else.
\<close>

definition mustBeFilepathData :: "string \<Rightarrow> OnError \<Rightarrow> AppError + string" where
  "mustBeFilepathData input handler =
     (case validateFilepathData input None of
        Inl e \<Rightarrow> Inl (handler e)
      | Inr v \<Rightarrow> Inr v)"

text \<open>
  \<open>RefinedString\<close> (\<open>@safelytyped/core-types\<close>) is the base class: its constructor
  \<open>(mustBe, input, { onError })\<close> stores what the contract \<open>mustBe\<close> returns as \<open>_value\<close>,
  and throws what the contract throws.
\<close>

definition RefinedString ::
  "(string \<Rightarrow> OnError \<Rightarrow> AppError + string) \<Rightarrow> string \<Rightarrow> OnError \<Rightarrow> AppError + string" where
  "RefinedString mustBe input handler = mustBe input handler"

section \<open>The two revisions of the constructor\<close>

text \<open>
  Both constructors destructure their options with the defaults
  \<open>onError = THROW_THE_ERROR\<close> and \<open>pathApi = path\<close>. The module \<open>path\<close> is NodeJS's own
  (\<open>path.posix\<close> or \<open>path.win32\<close>, chosen by the platform); it is the first parameter of
  every function that can see the import.

  The later revision of the class normalises its input:
  \<open>super(mustBeFilepathData, pathApi.normalize(input), { onError })\<close>.
\<close>

definition Filepath_constructor ::
  "PathApi \<Rightarrow> string \<Rightarrow> MakeFilepathOptions \<Rightarrow> AppError + Filepath" where
  "Filepath_constructor path input opts =
     (let handler = (case onError opts of None \<Rightarrow> THROW_THE_ERROR | Some h \<Rightarrow> h);
          api = (case pathApi opts of None \<Rightarrow> path | Some a \<Rightarrow> a)
      in case RefinedString mustBeFilepathData (normalize_path api input) handler of
           Inl e \<Rightarrow> Inl e
         | Inr v \<Rightarrow>
             Inr \<lparr>fp_value = v, fp_base = base opts, fp_pathApi = api, fp_parts = None\<rparr>)"

text \<open>
  The revision in \<open>src/v1/Filepath/Filepath.ts\<close> hands the input to the base class as it
  is: \<open>super(mustBeFilepathData, input, { onError })\<close>.
\<close>

definition Filepath_constructor_verbatim ::
  "PathApi \<Rightarrow> string \<Rightarrow> MakeFilepathOptions \<Rightarrow> AppError + Filepath" where
  "Filepath_constructor_verbatim path input opts =
     (let handler = (case onError opts of None \<Rightarrow> THROW_THE_ERROR | Some h \<Rightarrow> h);
          api = (case pathApi opts of None \<Rightarrow> path | Some a \<Rightarrow> a)
      in case RefinedString mustBeFilepathData input handler of
           Inl e \<Rightarrow> Inl e
         | Inr v \<Rightarrow>
             Inr \<lparr>fp_value = v, fp_base = base opts, fp_pathApi = api, fp_parts = None\<rparr>)"

section \<open>The methods of the class\<close>

text \<open>\<open>basename(ext?)\<close> is \<open>this.#_pathApi.basename(this._value, ext)\<close>.\<close>

definition Filepath_basename :: "Filepath \<Rightarrow> string option \<Rightarrow> string" where
  "Filepath_basename this ext = basename (fp_pathApi this) (fp_value this) ext"

text \<open>
  \<open>dirname(options)\<close> destructures its options with the defaults
  \<open>onError = THROW_THE_ERROR\<close>, \<open>pathApi = this.#_pathApi\<close> and \<open>base = this.#_base\<close>, and
  builds a new \<open>Filepath\<close> from \<open>this.#_pathApi.dirname(this._value)\<close>.
\<close>

definition Filepath_dirname ::
  "PathApi \<Rightarrow> Filepath \<Rightarrow> MakeFilepathOptions \<Rightarrow> AppError + Filepath" where
  "Filepath_dirname path this opts =
     (let handler = (case onError opts of None \<Rightarrow> THROW_THE_ERROR | Some h \<Rightarrow> h);
          api = (case pathApi opts of None \<Rightarrow> fp_pathApi this | Some a \<Rightarrow> a);
          b = (case base opts of None \<Rightarrow> fp_base this | Some s \<Rightarrow> Some s)
      in Filepath_constructor path (dirname (fp_pathApi this) (fp_value this))
           \<lparr>onError = Some handler, pathApi = Some api, base = b\<rparr>)"

text \<open>\<open>extname()\<close> and \<open>isAbsolute()\<close> hand \<open>this._value\<close> to the path API.\<close>

definition Filepath_extname :: "Filepath \<Rightarrow> string" where
  "Filepath_extname this = extname (fp_pathApi this) (fp_value this)"

definition Filepath_isAbsolute :: "Filepath \<Rightarrow> bool" where
  "Filepath_isAbsolute this = isAbsolute (fp_pathApi this) (fp_value this)"

text \<open>
  \<open>join(...paths)\<close> builds a new \<open>Filepath\<close> from
  \<open>this.#_pathApi.join(this._value, ...paths)\<close>, with the options
  \<open>{ pathApi: this.#_pathApi, base: this.#_base }\<close>.
\<close>

definition Filepath_join :: "PathApi \<Rightarrow> Filepath \<Rightarrow> string list \<Rightarrow> AppError + Filepath" where
  "Filepath_join path this paths =
     Filepath_constructor path (join (fp_pathApi this) (fp_value this # paths))
       \<lparr>onError = None, pathApi = Some (fp_pathApi this), base = fp_base this\<rparr>"

text \<open>
  \<open>parse()\<close> reads and writes the cache:
  \<^verbatim>\<open>
    const retval = this.#_parts || this.#_pathApi.parse(this._value);
    this.#_parts = this.#_parts || retval;
    return retval;
  \<close>
  A \<open>ParsedPath\<close> is an object, so \<open>||\<close> takes its right operand exactly when the cache
  is \<open>undefined\<close>. The path API's \<open>parse\<close> returns a new object, which is allocated at the
  end of the store. The method returns a reference: the reference held by \<open>#_parts\<close>
  itself, not a copy of the object. It also returns the updated state: the \<open>Filepath\<close>
  object, the store, and a counter of the times \<open>parse\<close> of the path API has been invoked
  for this object, which grows where the source evaluates \<open>this.#_pathApi.parse(...)\<close> and
  nowhere else.
\<close>

definition Filepath_parse ::
  "Filepath \<times> store \<times> nat \<Rightarrow> ref \<times> (Filepath \<times> store \<times> nat)" where
  "Filepath_parse s =
     (case s of (this, objects, calls) \<Rightarrow>
        (case fp_parts this of
           Some cached \<Rightarrow> (cached, (this, objects, calls))
         | None \<Rightarrow>
             (let retval = length objects
              in (retval,
                  (this\<lparr>fp_parts := Some retval\<rparr>,
                   objects @ [parse (fp_pathApi this) (fp_value this)],
                   Suc calls)))))"

text \<open>
  What the code that holds a \<open>Filepath\<close> can do to this state: call \<open>parse()\<close>, assign a
  field of a \<open>ParsedPath\<close> object it has a reference to (\<open>parts.base = "x"\<close>; the fields
  of \<open>path.ParsedPath\<close> are writable), or call another method of the class. The fields of
  the \<open>Filepath\<close> itself are private or protected, so its holder cannot assign them.
\<close>

datatype field = Field_root | Field_dir | Field_base | Field_name | Field_ext

fun assign_field :: "field \<Rightarrow> string \<Rightarrow> ParsedPath \<Rightarrow> ParsedPath" where
  "assign_field Field_root x obj = obj\<lparr>pp_root := x\<rparr>"
| "assign_field Field_dir x obj = obj\<lparr>pp_dir := x\<rparr>"
| "assign_field Field_base x obj = obj\<lparr>pp_base := x\<rparr>"
| "assign_field Field_name x obj = obj\<lparr>pp_name := x\<rparr>"
| "assign_field Field_ext x obj = obj\<lparr>pp_ext := x\<rparr>"

datatype step =
    Call_parse
  | Assign ref field string
  | Call_basename "string option"
  | Call_dirname MakeFilepathOptions
  | Call_extname
  | Call_isAbsolute
  | Call_join "string list"

text \<open>
  A caller running a list of such steps on one \<open>Filepath\<close>; the result is the list of the
  references that the calls of \<open>parse()\<close> returned, and the final state. An assignment
  through a reference that is not in the store does nothing: no caller holds one. The
  methods \<open>basename\<close>, \<open>dirname\<close>, \<open>extname\<close>, \<open>isAbsolute\<close> and \<open>join\<close> read
  \<open>this._value\<close>, \<open>this.#_pathApi\<close> and \<open>this.#_base\<close>; they assign no field of \<open>this\<close>,
  do not touch \<open>#_parts\<close> and do not call \<open>parse\<close> of the path API, so they leave this state
  as it is. What they return (a string, a boolean, or a new \<open>Filepath\<close> with an unset
  cache of its own) is given by \<open>Filepath_basename\<close>, \<open>Filepath_dirname\<close>,
  \<open>Filepath_extname\<close>, \<open>Filepath_isAbsolute\<close> and \<open>Filepath_join\<close>.
\<close>

fun run :: "step list \<Rightarrow> Filepath \<times> store \<times> nat \<Rightarrow> ref list \<times> (Filepath \<times> store \<times> nat)" where
  "run [] s = ([], s)"
| "run (Call_parse # steps) s =
     (case Filepath_parse s of
        (r, s') \<Rightarrow> (case run steps s' of (rs, s'') \<Rightarrow> (r # rs, s'')))"
| "run (Assign r f x # steps) s =
     (case s of (this, objects, calls) \<Rightarrow>
        run steps
          (this,
           (if r < length objects then objects[r := assign_field f x (objects ! r)] else objects),
           calls))"
| "run (Call_basename ext # steps) s = run steps s"
| "run (Call_dirname opts # steps) s = run steps s"
| "run (Call_extname # steps) s = run steps s"
| "run (Call_isAbsolute # steps) s = run steps s"
| "run (Call_join paths # steps) s = run steps s"

text \<open>Whether a step assigns a field of the object that the reference \<open>r\<close> refers to.\<close>

fun assigns_to :: "ref \<Rightarrow> step \<Rightarrow> bool" where
  "assigns_to r (Assign r' f x) = (r' = r)"
| "assigns_to r other = False"

text \<open>
  The cache agrees with the string value: it is unset, or it refers to an object that
  holds the parts of \<open>_value\<close>.
\<close>

definition cache_consistent :: "Filepath \<Rightarrow> store \<Rightarrow> bool" where
  "cache_consistent this objects =
     (case fp_parts this of
        None \<Rightarrow> True
      | Some cached \<Rightarrow>
          cached < length objects
          \<and> objects ! cached = parse (fp_pathApi this) (fp_value this))"

text \<open>
  Modelled from the spec: \<open>Filepath.resolve\<close> is declared and documented in the API
  documentation of the class, and its body is not among the sources. The documentation and
  section 4.3 of the specification say: it is a wrapper around the path API's \<open>resolve\<close>;
  called without segments it resolves \<open>this.valueOf()\<close> against \<open>this.base\<close>, and when
  there is no \<open>base\<close> against the working directory (which is what the path API's
  \<open>resolve\<close> does with a relative path); the \<open>Filepath\<close> it returns has the same
  \<open>base\<close> and the same \<open>pathApi\<close>.
\<close>

definition Filepath_resolve :: "PathApi \<Rightarrow> Filepath \<Rightarrow> string list \<Rightarrow> AppError + Filepath" where
  "Filepath_resolve path this paths =
     Filepath_constructor path
       (if paths = [] then
          (case fp_base this of
             Some b \<Rightarrow> resolve (fp_pathApi this) [b, fp_value this]
           | None \<Rightarrow> resolve (fp_pathApi this) [fp_value this])
        else resolve (fp_pathApi this) (fp_value this # paths))
       \<lparr>onError = None, pathApi = Some (fp_pathApi this), base = fp_base this\<rparr>"

section \<open>The smart constructor\<close>

text \<open>
  \<open>applyFunctionalOptions\<close> (\<open>@safelytyped/core-types\<close>) applies each functional option
  in turn to the value built so far. A functional option may throw.
\<close>

type_synonym FunctionalOption = "Filepath \<Rightarrow> OnError \<Rightarrow> AppError + Filepath"

fun applyFunctionalOptions ::
  "Filepath \<Rightarrow> OnError \<Rightarrow> FunctionalOption list \<Rightarrow> AppError + Filepath" where
  "applyFunctionalOptions input handler [] = Inr input"
| "applyFunctionalOptions input handler (fnOpt # fnOpts) =
     (case fnOpt input handler of
        Inl e \<Rightarrow> Inl e
      | Inr retval \<Rightarrow> applyFunctionalOptions retval handler fnOpts)"

text \<open>
  \<open>makeFilepath(input, { onError, pathApi, base }, ...fnOpts)\<close> destructures its options
  with the same defaults as the constructor, and hands the three values on:
  \<open>applyFunctionalOptions(new Filepath(input, { onError, pathApi, base }), { onError }, ...fnOpts)\<close>.
  The class it imports from \<open>./Filepath\<close> is the parameter \<open>ctor\<close>: the sources hold two
  revisions of that file.
\<close>

definition makeFilepath ::
  "(PathApi \<Rightarrow> string \<Rightarrow> MakeFilepathOptions \<Rightarrow> AppError + Filepath) \<Rightarrow>
   PathApi \<Rightarrow> string \<Rightarrow> MakeFilepathOptions \<Rightarrow> FunctionalOption list \<Rightarrow> AppError + Filepath" where
  "makeFilepath ctor path input opts fnOpts =
     (let handler = (case onError opts of None \<Rightarrow> THROW_THE_ERROR | Some h \<Rightarrow> h);
          api = (case pathApi opts of None \<Rightarrow> path | Some a \<Rightarrow> a)
      in case ctor path input \<lparr>onError = Some handler, pathApi = Some api, base = base opts\<rparr> of
           Inl e \<Rightarrow> Inl e
         | Inr fp \<Rightarrow> applyFunctionalOptions fp handler fnOpts)"

section \<open>A POSIX path API\<close>

text \<open>
  NodeJS's \<open>path\<close> module is not part of the repository. The definitions of this section
  describe the POSIX flavour of it, with \<open>/\<close> as the separator, as far as the
  specification, the documentation of the class and the repository's tests describe it.
\<close>

fun split_sep :: "string \<Rightarrow> string list" where
  "split_sep [] = [[]]"
| "split_sep (c # cs) =
     (if c = CHR ''/'' then [] # split_sep cs
      else (case split_sep cs of [] \<Rightarrow> [[c]] | s # ss \<Rightarrow> (c # s) # ss))"

fun join_sep :: "string list \<Rightarrow> string" where
  "join_sep [] = []"
| "join_sep [s] = s"
| "join_sep (s # ss) = s @ CHR ''/'' # join_sep ss"

text \<open>
  Modelled from the spec: normalisation resolves \<open>.\<close> and \<open>..\<close> segments and drops empty
  ones. \<open>kept\<close> is the stack of the segments kept so far, the last one first; a \<open>..\<close>
  removes the segment in front of it, and is kept only in a relative path
  (\<open>allowAboveRoot\<close>) that has nothing left to remove.
\<close>

fun normalizeString :: "bool \<Rightarrow> string list \<Rightarrow> string list \<Rightarrow> string list" where
  "normalizeString allowAboveRoot kept [] = rev kept"
| "normalizeString allowAboveRoot kept (s # ss) =
     (if s = [] \<or> s = ''.'' then normalizeString allowAboveRoot kept ss
      else if s = ''..'' then
        (case kept of
           [] \<Rightarrow> normalizeString allowAboveRoot (if allowAboveRoot then [''..''] else []) ss
         | t # ts \<Rightarrow>
             if t = ''..'' then normalizeString allowAboveRoot (''..'' # kept) ss
             else normalizeString allowAboveRoot ts ss)
      else normalizeString allowAboveRoot (s # kept) ss)"

definition posix_isAbsolute :: "string \<Rightarrow> bool" where
  "posix_isAbsolute p = (p \<noteq> [] \<and> hd p = CHR ''/'')"

text \<open>
  Modelled from the spec: \<open>normalize\<close>. The empty path is the current directory \<open>.\<close>; a
  leading and a trailing separator are kept; a path whose segments all cancel is \<open>/\<close>
  when absolute, and \<open>.\<close> (or \<open>./\<close>) when relative.
\<close>

definition posix_normalize :: "string \<Rightarrow> string" where
  "posix_normalize p =
     (if p = [] then ''.''
      else
        (let isAbs = (hd p = CHR ''/'');
             trailingSeparator = (last p = CHR ''/'');
             q = join_sep (normalizeString (\<not> isAbs) [] (split_sep p))
         in if q = [] then (if isAbs then ''/'' else if trailingSeparator then ''./'' else ''.'')
            else (if isAbs then ''/'' else []) @ q @ (if trailingSeparator then ''/'' else [])))"

text \<open>
  Modelled from the spec: \<open>join\<close> puts the separator between its arguments and
  normalises the result; zero-length arguments are ignored, and when nothing is left the
  result is \<open>.\<close>.
\<close>

definition posix_join :: "string list \<Rightarrow> string" where
  "posix_join paths =
     (let joined = join_sep (filter (\<lambda>a. a \<noteq> []) paths)
      in if joined = [] then ''.'' else posix_normalize joined)"

text \<open>
  Modelled from the spec: \<open>resolve\<close> works from the last argument backwards and stops as
  soon as it has an absolute path; zero-length arguments are ignored; the working directory
  \<open>cwd\<close> of the process is used when the arguments give no absolute path. The result is
  normalised and has no trailing separator.
\<close>

fun resolve_loop :: "string list \<Rightarrow> string \<Rightarrow> string \<times> bool" where
  "resolve_loop [] resolvedPath = (resolvedPath, False)"
| "resolve_loop (p # ps) resolvedPath =
     (if p = [] then resolve_loop ps resolvedPath
      else if hd p = CHR ''/'' then (p @ CHR ''/'' # resolvedPath, True)
      else resolve_loop ps (p @ CHR ''/'' # resolvedPath))"

definition posix_resolve :: "string \<Rightarrow> string list \<Rightarrow> string" where
  "posix_resolve cwd paths =
     (case resolve_loop (rev (cwd # paths)) [] of
        (resolvedPath, resolvedAbsolute) \<Rightarrow>
          (let q = join_sep (normalizeString (\<not> resolvedAbsolute) [] (split_sep resolvedPath))
           in if resolvedAbsolute then CHR ''/'' # q
              else if q \<noteq> [] then q else ''.''))"

text \<open>The last segment of a path; trailing separators are ignored.\<close>

definition last_segment :: "string \<Rightarrow> string" where
  "last_segment p =
     rev (takeWhile (\<lambda>c. c \<noteq> CHR ''/'') (dropWhile (\<lambda>c. c = CHR ''/'') (rev p)))"

definition ends_with :: "string \<Rightarrow> string \<Rightarrow> bool" where
  "ends_with s e = (length e \<le> length s \<and> drop (length s - length e) s = e)"

text \<open>
  Modelled from the spec: \<open>basename\<close> is the last segment of the path; when a suffix is
  supplied and the last segment ends with it, the suffix is removed, and otherwise the
  suffix is ignored.
\<close>

definition posix_basename :: "string \<Rightarrow> string option \<Rightarrow> string" where
  "posix_basename p ext =
     (let seg = last_segment p
      in case ext of
           None \<Rightarrow> seg
         | Some e \<Rightarrow> if ends_with seg e then take (length seg - length e) seg else seg)"

text \<open>
  Modelled from the spec: \<open>extname\<close> is the last segment from its last \<open>.\<close> to its end;
  it is empty when the segment has no \<open>.\<close>, and when its only \<open>.\<close> is its first
  character.
\<close>

definition posix_extname :: "string \<Rightarrow> string" where
  "posix_extname p =
     (let seg = last_segment p;
          after = takeWhile (\<lambda>c. c \<noteq> CHR ''.'') (rev seg)
      in if CHR ''.'' \<notin> set seg then []
         else if length after + 1 = length seg then []
         else drop (length seg - (length after + 1)) seg)"

text \<open>
  Modelled from the spec: \<open>dirname\<close> is the path without its last segment and without the
  separator in front of it; \<open>/\<close> for a segment directly under the root, \<open>.\<close> for a path of
  one relative segment.
\<close>

definition posix_dirname :: "string \<Rightarrow> string" where
  "posix_dirname p =
     (if p = [] then ''.''
      else
        (let hasRoot = (hd p = CHR ''/'');
             front = dropWhile (\<lambda>c. c \<noteq> CHR ''/'') (dropWhile (\<lambda>c. c = CHR ''/'') (rev (tl p)))
         in if front = [] then (if hasRoot then ''/'' else ''.'')
            else if hasRoot \<and> tl front = [] then ''//''
            else hd p # rev (tl front)))"

text \<open>
  Modelled from the spec: \<open>parse\<close> gives the root (\<open>/\<close> of an absolute path), the
  directory part, the last segment, and the last segment split into name and extension.
\<close>

definition posix_parse :: "string \<Rightarrow> ParsedPath" where
  "posix_parse p =
     (let isAbs = posix_isAbsolute p;
          rt = (if isAbs then ''/'' else []);
          seg = last_segment p;
          e = posix_extname p;
          front = dropWhile (\<lambda>c. c \<noteq> CHR ''/'')
                     (dropWhile (\<lambda>c. c = CHR ''/'') (rev (if isAbs then tl p else p)))
      in \<lparr>pp_root = rt,
          pp_dir = (if front = [] then rt else rt @ rev (tl front)),
          pp_base = seg,
          pp_name = take (length seg - length e) seg,
          pp_ext = e\<rparr>)"

text \<open>\<open>posix cwd\<close> is the path API of a process whose working directory is \<open>cwd\<close>.\<close>

definition posix :: "string \<Rightarrow> PathApi" where
  "posix cwd =
     \<lparr>normalize_path = posix_normalize,
      join = posix_join,
      resolve = posix_resolve cwd,
      dirname = posix_dirname,
      basename = posix_basename,
      extname = posix_extname,
      isAbsolute = posix_isAbsolute,
      parse = posix_parse\<rparr>"

text \<open>
  The two stages of \<open>join\<close>, named: the path that the non-empty arguments make when the
  separator is put between them, and the segments of a path that normalisation keeps.
\<close>

definition join_arguments :: "string list \<Rightarrow> string" where
  "join_arguments paths = join_sep (filter (\<lambda>a. a \<noteq> []) paths)"

definition kept_segments :: "string \<Rightarrow> string list" where
  "kept_segments p = normalizeString (\<not> posix_isAbsolute p) [] (split_sep p)"

text \<open>
  A segment that normalisation leaves alone: not empty, not \<open>.\<close>, not \<open>..\<close>, and
  without a separator.
\<close>

definition plain_segment :: "string \<Rightarrow> bool" where
  "plain_segment s = (s \<noteq> [] \<and> s \<noteq> ''.'' \<and> s \<noteq> ''..'' \<and> CHR ''/'' \<notin> set s)"

text \<open>
  A normalised list of segments: \<open>..\<close> segments, which only a relative path
  (\<open>allowAboveRoot\<close>) may keep, followed by plain segments. \<open>normal_stack\<close> says the same
  of the stack that normalisation builds, whose first element is the last segment.
\<close>

fun normal_path :: "bool \<Rightarrow> string list \<Rightarrow> bool" where
  "normal_path allowAboveRoot [] = True"
| "normal_path allowAboveRoot (s # ss) =
     (if s = ''..'' then allowAboveRoot \<and> normal_path allowAboveRoot ss
      else plain_segment s \<and> list_all plain_segment ss)"

fun normal_stack :: "bool \<Rightarrow> string list \<Rightarrow> bool" where
  "normal_stack allowAboveRoot [] = True"
| "normal_stack allowAboveRoot (t # ts) =
     (if t = ''..'' then allowAboveRoot \<and> list_all (\<lambda>s. s = ''..'') ts
      else plain_segment t \<and> normal_stack allowAboveRoot ts)"

section \<open>What construction returns\<close>

lemma mustBeFilepathData_accepts: "mustBeFilepathData input handler = Inr input"
  by (simp add: mustBeFilepathData_def validateFilepathData_def)

lemma Filepath_constructor_result:
  "Filepath_constructor path input opts =
     Inr \<lparr>fp_value = normalize_path (case pathApi opts of None \<Rightarrow> path | Some a \<Rightarrow> a) input,
          fp_base = base opts,
          fp_pathApi = (case pathApi opts of None \<Rightarrow> path | Some a \<Rightarrow> a),
          fp_parts = None\<rparr>"
  by (simp add: Filepath_constructor_def RefinedString_def mustBeFilepathData_accepts Let_def)

lemma Filepath_constructor_verbatim_result:
  "Filepath_constructor_verbatim path input opts =
     Inr \<lparr>fp_value = input,
          fp_base = base opts,
          fp_pathApi = (case pathApi opts of None \<Rightarrow> path | Some a \<Rightarrow> a),
          fp_parts = None\<rparr>"
  by (simp add: Filepath_constructor_verbatim_def RefinedString_def mustBeFilepathData_accepts
      Let_def)

lemma Filepath_join_result:
  "Filepath_join path this paths =
     Inr \<lparr>fp_value = normalize_path (fp_pathApi this) (join (fp_pathApi this) (fp_value this # paths)),
          fp_base = fp_base this,
          fp_pathApi = fp_pathApi this,
          fp_parts = None\<rparr>"
  by (simp add: Filepath_join_def Filepath_constructor_result)

lemma Filepath_dirname_result:
  "Filepath_dirname path this opts =
     Inr \<lparr>fp_value = normalize_path (case pathApi opts of None \<Rightarrow> fp_pathApi this | Some a \<Rightarrow> a)
                       (dirname (fp_pathApi this) (fp_value this)),
          fp_base = (case base opts of None \<Rightarrow> fp_base this | Some s \<Rightarrow> Some s),
          fp_pathApi = (case pathApi opts of None \<Rightarrow> fp_pathApi this | Some a \<Rightarrow> a),
          fp_parts = None\<rparr>"
  by (simp add: Filepath_dirname_def Filepath_constructor_result Let_def)

section \<open>The POSIX path API on the examples of the repository's tests\<close>

text \<open>
  The unit tests of the class run it against \<open>path.posix\<close>. The POSIX path API above
  returns what those tests expect.
\<close>

lemma posix_normalize_test:
  "posix_normalize ''this/hasnot/../has/been/./normalised'' = ''this/has/been/normalised''"
  by (simp add: posix_normalize_def)

lemma posix_join_test:
  "posix_join [''/tmp/this/is/an/example'', ''..'', ''..'', ''another/example'']
     = ''/tmp/this/is/another/example''"
  by (simp add: posix_join_def posix_normalize_def)

lemma posix_dirname_test: "posix_dirname ''/tmp'' = ''/''"
  by (simp add: posix_dirname_def)

lemma posix_extname_test:
  "posix_extname ''example.ts'' = ''.ts''" "posix_extname ''example'' = []"
  by (simp_all add: posix_extname_def last_segment_def)

lemma posix_isAbsolute_test:
  "posix_isAbsolute ''/tmp''" "\<not> posix_isAbsolute (posix_normalize ''./tmp'')"
  by (simp_all add: posix_isAbsolute_def posix_normalize_def)

lemma posix_parse_test:
  "posix_parse ''/tmp/example/file.ts'' =
     \<lparr>pp_root = ''/'', pp_dir = ''/tmp/example'', pp_base = ''file.ts'', pp_name = ''file'',
      pp_ext = ''.ts''\<rparr>"
  by (simp add: posix_parse_def posix_isAbsolute_def posix_extname_def last_segment_def Let_def)

lemma Filepath_dirname_test:
  "\<exists>unit.
     Filepath_constructor path ''/tmp'' \<lparr>onError = None, pathApi = Some (posix cwd), base = None\<rparr>
       = Inr unit
     \<and> Filepath_dirname path unit no_options =
         Filepath_constructor path ''/'' \<lparr>onError = None, pathApi = Some (posix cwd), base = None\<rparr>"
  by (simp add: Filepath_constructor_result Filepath_dirname_result no_options_def posix_def
      posix_normalize_def posix_dirname_def)

lemma Filepath_join_test:
  "\<exists>unit.
     Filepath_constructor path ''/tmp/this/is/an/example''
         \<lparr>onError = None, pathApi = Some (posix cwd), base = None\<rparr>
       = Inr unit
     \<and> Filepath_join path unit [''..'', ''..'', ''another/example''] =
         Filepath_constructor path ''/tmp/this/is/another/example''
           \<lparr>onError = None, pathApi = Some (posix cwd), base = None\<rparr>"
  by (simp add: Filepath_constructor_result Filepath_join_result posix_def
      posix_normalize_def posix_join_def)

lemma posix_join_collapses: "posix_join [''a'', ''..''] = ''.''"
  by (simp add: posix_join_def posix_normalize_def)

lemma posix_normalize_dotdot: "posix_normalize ''a/../b'' = ''b''"
  by (simp add: posix_normalize_def)

lemma posix_normalize_dot: "posix_normalize ''.'' = ''.''"
  by (simp add: posix_normalize_def)

lemma posix_normalize_example_ts: "posix_normalize ''example.ts'' = ''example.ts''"
  by (simp add: posix_normalize_def)

lemma posix_normalize_bashrc: "posix_normalize ''.bashrc'' = ''.bashrc''"
  by (simp add: posix_normalize_def)

lemma posix_normalize_abc: "posix_normalize ''a.b.c'' = ''a.b.c''"
  by (simp add: posix_normalize_def)

lemma posix_resolve_example: "posix_resolve ''/home/u'' [''/base'', ''b''] = ''/base/b''"
  by (simp add: posix_resolve_def)

section \<open>The POSIX path API never returns an empty path\<close>

lemma posix_normalize_not_empty: "posix_normalize p \<noteq> []"
  by (simp add: posix_normalize_def Let_def)

lemma posix_join_not_empty: "posix_join paths \<noteq> []"
  by (simp add: posix_join_def Let_def posix_normalize_not_empty)

section \<open>Resolved paths are absolute and normalised\<close>

lemma split_sep_no_sep: "x \<in> set (split_sep s) \<Longrightarrow> CHR ''/'' \<notin> set x"
proof (induction s arbitrary: x)
  case Nil
  then show ?case by simp
next
  case (Cons c cs)
  then show ?case
    by (cases "split_sep cs") (auto split: if_splits)
qed

lemma split_sep_single: "CHR ''/'' \<notin> set s \<Longrightarrow> split_sep s = [s]"
  by (induction s) auto

lemma split_sep_append: "CHR ''/'' \<notin> set s \<Longrightarrow> split_sep (s @ CHR ''/'' # t) = s # split_sep t"
  by (induction s) auto

lemma split_join_sep:
  "xs \<noteq> [] \<Longrightarrow> \<forall>x\<in>set xs. CHR ''/'' \<notin> set x \<Longrightarrow> split_sep (join_sep xs) = xs"
proof (induction xs rule: join_sep.induct)
  case 1
  then show ?case by simp
next
  case (2 s)
  then show ?case by (simp add: split_sep_single)
next
  case (3 s t ts)
  then show ?case by (simp add: split_sep_append)
qed

lemma normalizeString_skip:
  "s = [] \<or> s = ''.'' \<Longrightarrow> normalizeString a kept (s # ss) = normalizeString a kept ss"
  by simp

lemma normalizeString_up_root:
  "normalizeString False [] (''..'' # ss) = normalizeString False [] ss"
  by simp

lemma normalizeString_up:
  "t \<noteq> ''..'' \<Longrightarrow> normalizeString a (t # ts) (''..'' # ss) = normalizeString a ts ss"
  by simp

lemma normalizeString_push:
  "s \<noteq> [] \<Longrightarrow> s \<noteq> ''.'' \<Longrightarrow> s \<noteq> ''..'' \<Longrightarrow>
     normalizeString a kept (s # ss) = normalizeString a (s # kept) ss"
  by simp

lemma normalizeString_plain:
  "\<forall>x\<in>set kept. plain_segment x \<Longrightarrow> \<forall>x\<in>set ss. CHR ''/'' \<notin> set x \<Longrightarrow>
     \<forall>x\<in>set (normalizeString False kept ss). plain_segment x"
proof (induction ss arbitrary: kept)
  case Nil
  then show ?case by simp
next
  case (Cons s ss)
  have rest: "\<forall>x\<in>set ss. CHR ''/'' \<notin> set x"
    using Cons.prems(2) by simp
  consider (skip) "s = [] \<or> s = ''.''"
    | (root) "s = ''..''" "kept = []"
    | (up) t ts where "s = ''..''" "kept = t # ts"
    | (push) "s \<noteq> []" "s \<noteq> ''.''" "s \<noteq> ''..''"
    by (cases kept) blast+
  then show ?case
  proof cases
    case skip
    show ?thesis
      unfolding normalizeString_skip[OF skip] by (rule Cons.IH[OF Cons.prems(1) rest])
  next
    case root
    have k: "\<forall>x\<in>set ([]::string list). plain_segment x" by simp
    show ?thesis
      unfolding root normalizeString_up_root by (rule Cons.IH[OF k rest])
  next
    case up
    have pt: "plain_segment t" and pts: "\<forall>x\<in>set ts. plain_segment x"
      using Cons.prems(1) up(2) by simp_all
    have nd: "t \<noteq> ''..''" using pt unfolding plain_segment_def by blast
    show ?thesis
      unfolding up normalizeString_up[OF nd] by (rule Cons.IH[OF pts rest])
  next
    case push
    have "CHR ''/'' \<notin> set s" using Cons.prems(2) by simp
    then have "plain_segment s" using push unfolding plain_segment_def by blast
    then have k: "\<forall>x\<in>set (s # kept). plain_segment x" using Cons.prems(1) by simp
    show ?thesis
      unfolding normalizeString_push[OF push] by (rule Cons.IH[OF k rest])
  qed
qed

lemma normalizeString_of_plain:
  "\<forall>x\<in>set ss. plain_segment x \<Longrightarrow> normalizeString a kept ss = rev kept @ ss"
proof (induction ss arbitrary: kept)
  case Nil
  then show ?case by simp
next
  case (Cons s ss)
  have p: "s \<noteq> []" "s \<noteq> ''.''" "s \<noteq> ''..''"
    using Cons.prems unfolding plain_segment_def by simp_all
  have rest: "\<forall>x\<in>set ss. plain_segment x" using Cons.prems by simp
  show ?case
    unfolding normalizeString_push[OF p] Cons.IH[OF rest] by simp
qed

lemma join_sep_plain_empty: "\<forall>x\<in>set xs. plain_segment x \<Longrightarrow> (join_sep xs = []) = (xs = [])"
  by (induction xs rule: join_sep.induct) (auto simp: plain_segment_def)

lemma join_sep_plain_last:
  "xs \<noteq> [] \<Longrightarrow> \<forall>x\<in>set xs. plain_segment x \<Longrightarrow> last (join_sep xs) \<noteq> CHR ''/''"
proof (induction xs rule: join_sep.induct)
  case 1
  then show ?case by simp
next
  case (2 s)
  then have "s \<noteq> []" and n: "CHR ''/'' \<notin> set s" by (auto simp: plain_segment_def)
  then have "last s \<in> set s" by simp
  with n have "last s \<noteq> CHR ''/''" by metis
  then show ?case by simp
next
  case (3 s t ts)
  have "join_sep (t # ts) \<noteq> []" using 3 by (simp add: join_sep_plain_empty)
  then show ?case using 3 by simp
qed

lemma posix_normalize_absolute_plain:
  assumes "\<forall>x\<in>set xs. plain_segment x"
  shows "posix_normalize (CHR ''/'' # join_sep xs) = CHR ''/'' # join_sep xs"
proof (cases "xs = []")
  case True
  then show ?thesis by (simp add: posix_normalize_def)
next
  case False
  have nosep: "\<forall>x\<in>set xs. CHR ''/'' \<notin> set x" using assms by (simp add: plain_segment_def)
  have ne: "join_sep xs \<noteq> []" using assms False by (simp add: join_sep_plain_empty)
  have l: "last (join_sep xs) \<noteq> CHR ''/''" using join_sep_plain_last[OF False assms] .
  have sp: "split_sep (join_sep xs) = xs"
    using split_join_sep[OF False nosep] .
  have ns: "normalizeString False [] xs = xs"
    using normalizeString_of_plain[OF assms, of False "[]"] by simp
  show ?thesis
    using ne l by (simp add: posix_normalize_def sp ns)
qed

lemma resolve_loop_absolute:
  "ps \<noteq> [] \<Longrightarrow> posix_isAbsolute (last ps) \<Longrightarrow> snd (resolve_loop ps acc) = True"
proof (induction ps arbitrary: acc)
  case Nil
  then show ?case by simp
next
  case (Cons p ps)
  then show ?case by (cases ps) (auto simp: posix_isAbsolute_def)
qed

lemma posix_resolve_absolute:
  assumes "posix_isAbsolute cwd"
  shows "\<exists>xs. (\<forall>x\<in>set xs. plain_segment x) \<and> posix_resolve cwd paths = CHR ''/'' # join_sep xs"
proof -
  obtain rp ab where rl: "resolve_loop (rev (cwd # paths)) [] = (rp, ab)"
    by (cases "resolve_loop (rev (cwd # paths)) []")
  have "snd (resolve_loop (rev (cwd # paths)) []) = True"
    by (rule resolve_loop_absolute) (use assms in auto)
  then have ab: "ab = True" using rl by simp
  let ?xs = "normalizeString False [] (split_sep rp)"
  have "\<forall>x\<in>set ?xs. plain_segment x"
    by (rule normalizeString_plain) (auto dest: split_sep_no_sep)
  moreover have "posix_resolve cwd paths = CHR ''/'' # join_sep ?xs"
    using rl ab by (simp add: posix_resolve_def)
  ultimately show ?thesis by blast
qed

lemma posix_normalize_resolve:
  "posix_isAbsolute cwd \<Longrightarrow> posix_normalize (posix_resolve cwd paths) = posix_resolve cwd paths"
  using posix_resolve_absolute[of cwd paths] posix_normalize_absolute_plain by auto

lemma posix_resolve_isAbsolute:
  "posix_isAbsolute cwd \<Longrightarrow> posix_isAbsolute (posix_resolve cwd paths)"
  using posix_resolve_absolute[of cwd paths] by (auto simp: posix_isAbsolute_def)

section \<open>Normalising a normalised path changes nothing\<close>

lemma split_sep_not_Nil: "split_sep s \<noteq> []"
  by (induction s) (auto split: list.splits)

lemma split_sep_snoc: "split_sep (s @ [CHR ''/'']) = split_sep s @ [[]]"
proof (induction s)
  case Nil
  then show ?case by simp
next
  case (Cons c s)
  obtain y ys where "split_sep s = y # ys"
    using split_sep_not_Nil[of s] by (cases "split_sep s") auto
  with Cons show ?case by simp
qed

lemma normalizeString_down_root:
  "normalizeString True [] (''..'' # ss) = normalizeString True [''..''] ss"
  by simp

lemma normalizeString_down:
  "normalizeString a (''..'' # ts) (''..'' # ss) = normalizeString a (''..'' # ''..'' # ts) ss"
  by simp

lemma normalizeString_snoc_empty:
  "normalizeString a kept (xs @ [[]]) = normalizeString a kept xs"
proof (induction xs arbitrary: kept)
  case Nil
  show ?case by simp
next
  case (Cons s ss)
  consider (skip) "s = [] \<or> s = ''.''"
    | (root) "s = ''..''" "kept = []"
    | (down) ts where "s = ''..''" "kept = ''..'' # ts"
    | (up) t ts where "s = ''..''" "kept = t # ts" "t \<noteq> ''..''"
    | (push) "s \<noteq> []" "s \<noteq> ''.''" "s \<noteq> ''..''"
    by (cases kept) blast+
  then show ?case
  proof cases
    case skip
    show ?thesis
      using Cons.IH[of kept] normalizeString_skip[OF skip, of a kept]
      by (metis append_Cons)
  next
    case root
    show ?thesis
    proof (cases a)
      case True
      then show ?thesis using Cons.IH[of "[''..'']"] root by simp
    next
      case False
      then show ?thesis using Cons.IH[of "[]"] root by simp
    qed
  next
    case down
    show ?thesis
      using Cons.IH[of "''..'' # ''..'' # ts"] down by simp
  next
    case up
    show ?thesis
      using Cons.IH[of ts] up normalizeString_up[OF up(3), of a ts] by simp
  next
    case push
    show ?thesis
      using Cons.IH[of "s # kept"] normalizeString_push[OF push, of a kept]
      by (metis append_Cons)
  qed
qed

lemma plain_not_dotdot: "plain_segment s \<Longrightarrow> s \<noteq> ''..''"
  unfolding plain_segment_def by blast

lemma normal_path_dotdots: "a \<Longrightarrow> list_all (\<lambda>s. s = ''..'') xs \<Longrightarrow> normal_path a xs"
  by (induction xs) auto

lemma normal_path_plain: "list_all plain_segment xs \<Longrightarrow> normal_path a xs"
  by (cases xs) (auto dest: plain_not_dotdot)

lemma normal_path_snoc:
  "normal_path a xs \<Longrightarrow> plain_segment t \<Longrightarrow> normal_path a (xs @ [t])"
proof (induction xs)
  case Nil
  then show ?case by (simp add: plain_not_dotdot)
next
  case (Cons x xs)
  then show ?case by (cases "x = ''..''") auto
qed

lemma normal_path_snoc_dotdot:
  "a \<Longrightarrow> list_all (\<lambda>s. s = ''..'') xs \<Longrightarrow> normal_path a (xs @ [''..''])"
  by (rule normal_path_dotdots) auto

lemma normal_stack_rev: "normal_stack a kept \<Longrightarrow> normal_path a (rev kept)"
proof (induction kept)
  case Nil
  then show ?case by simp
next
  case (Cons t ts)
  show ?case
  proof (cases "t = ''..''")
    case True
    then have "a" and "list_all (\<lambda>s. s = ''..'') (rev ts)"
      using Cons.prems by simp_all
    then show ?thesis using True normal_path_snoc_dotdot by simp
  next
    case False
    then have "plain_segment t" and "normal_stack a ts" using Cons.prems by simp_all
    then show ?thesis using Cons.IH normal_path_snoc by simp
  qed
qed

lemma normal_stack_tl: "normal_stack a (t # ts) \<Longrightarrow> normal_stack a ts"
proof (cases "t = ''..''")
  case True
  assume "normal_stack a (t # ts)"
  with True have a: "a" and d: "list_all (\<lambda>s. s = ''..'') ts" by simp_all
  show ?thesis
  proof (cases ts)
    case Nil
    then show ?thesis by simp
  next
    case (Cons u us)
    then show ?thesis using a d by simp
  qed
next
  case False
  assume "normal_stack a (t # ts)"
  with False show ?thesis by simp
qed

lemma normalizeString_normal:
  "normal_stack a kept \<Longrightarrow> \<forall>x\<in>set ss. CHR ''/'' \<notin> set x \<Longrightarrow>
     normal_path a (normalizeString a kept ss)"
proof (induction ss arbitrary: kept)
  case Nil
  then show ?case by (simp add: normal_stack_rev)
next
  case (Cons s ss)
  have rest: "\<forall>x\<in>set ss. CHR ''/'' \<notin> set x"
    using Cons.prems(2) by simp
  consider (skip) "s = [] \<or> s = ''.''"
    | (root) "s = ''..''" "kept = []"
    | (down) ts where "s = ''..''" "kept = ''..'' # ts"
    | (up) t ts where "s = ''..''" "kept = t # ts" "t \<noteq> ''..''"
    | (push) "s \<noteq> []" "s \<noteq> ''.''" "s \<noteq> ''..''"
    by (cases kept) blast+
  then show ?case
  proof cases
    case skip
    show ?thesis
      unfolding normalizeString_skip[OF skip] by (rule Cons.IH[OF Cons.prems(1) rest])
  next
    case root
    show ?thesis
    proof (cases a)
      case True
      have k: "normal_stack a [''..'']" using True by simp
      show ?thesis
        using Cons.IH[OF k rest] root True by simp
    next
      case False
      have k: "normal_stack a []" by simp
      show ?thesis
        using Cons.IH[OF k rest] root False by simp
    qed
  next
    case down
    have k: "normal_stack a (''..'' # ''..'' # ts)"
      using Cons.prems(1) down(2) by simp
    show ?thesis
      unfolding down normalizeString_down by (rule Cons.IH[OF k rest])
  next
    case up
    have k: "normal_stack a ts"
      using Cons.prems(1) up(2) normal_stack_tl by blast
    show ?thesis
      unfolding up(1,2) normalizeString_up[OF up(3)] by (rule Cons.IH[OF k rest])
  next
    case push
    have "CHR ''/'' \<notin> set s" using Cons.prems(2) by simp
    then have "plain_segment s" using push unfolding plain_segment_def by blast
    then have k: "normal_stack a (s # kept)" using Cons.prems(1) push(3) by simp
    show ?thesis
      unfolding normalizeString_push[OF push] by (rule Cons.IH[OF k rest])
  qed
qed

lemma normal_path_before_dotdot:
  "normal_path a (xs @ ''..'' # rest) \<Longrightarrow> a \<and> list_all (\<lambda>s. s = ''..'') xs"
proof (induction xs)
  case Nil
  then show ?case by simp
next
  case (Cons x xs)
  show ?case
  proof (cases "x = ''..''")
    case True
    from Cons.prems have "normal_path a (x # xs @ ''..'' # rest)" by (simp only: append_Cons)
    then have both: "a \<and> normal_path a (xs @ ''..'' # rest)"
      using True by (metis normal_path.simps(2))
    then have np: "normal_path a (xs @ ''..'' # rest)" and a: "a" by blast+
    show ?thesis using Cons.IH[OF np] True a by simp
  next
    case False
    then have "list_all plain_segment (xs @ ''..'' # rest)" using Cons.prems by simp
    then have "plain_segment ''..''" by simp
    then show ?thesis by (simp add: plain_segment_def)
  qed
qed

lemma normal_path_plain_at:
  "normal_path a (xs @ s # rest) \<Longrightarrow> s \<noteq> ''..'' \<Longrightarrow> plain_segment s"
proof (induction xs)
  case Nil
  then show ?case by simp
next
  case (Cons x xs)
  then show ?case by (cases "x = ''..''") auto
qed

lemma plain_segment_facts:
  "plain_segment s \<Longrightarrow> s \<noteq> []" "plain_segment s \<Longrightarrow> s \<noteq> ''.''"
  unfolding plain_segment_def by blast+

lemma normalizeString_of_normal:
  "normal_path a (rev kept @ ss) \<Longrightarrow> normalizeString a kept ss = rev kept @ ss"
proof (induction ss arbitrary: kept)
  case Nil
  then show ?case by simp
next
  case (Cons s ss)
  have next_ok: "normal_path a (rev (s # kept) @ ss)" using Cons.prems by simp
  show ?case
  proof (cases "s = ''..''")
    case True
    have a: "a" and d: "list_all (\<lambda>s. s = ''..'') (rev kept)"
      using normal_path_before_dotdot[of a "rev kept" ss] Cons.prems True by simp_all
    show ?thesis
    proof (cases kept)
      case Nil
      have "normalizeString a [] (''..'' # ss) = normalizeString a [''..''] ss"
        using a normalizeString_down_root by simp
      then show ?thesis using Cons.IH[OF next_ok] True Nil by simp
    next
      case (Cons t ts)
      have "t = ''..''" using d Cons by simp
      then show ?thesis
        using Cons.IH[OF next_ok] True Cons normalizeString_down[of a ts ss] by simp
    qed
  next
    case False
    have p: "plain_segment s"
      using normal_path_plain_at[of a "rev kept" s ss] Cons.prems False by simp
    have "normalizeString a kept (s # ss) = normalizeString a (s # kept) ss"
      by (rule normalizeString_push[OF plain_segment_facts(1)[OF p] plain_segment_facts(2)[OF p] False])
    then show ?thesis using Cons.IH[OF next_ok] by simp
  qed
qed

lemma normal_path_segments:
  "normal_path a ks \<Longrightarrow> x \<in> set ks \<Longrightarrow> x \<noteq> [] \<and> CHR ''/'' \<notin> set x"
proof (induction ks)
  case Nil
  then show ?case by simp
next
  case (Cons k ks)
  show ?case
  proof (cases "k = ''..''")
    case True
    from Cons.prems(1) have "normal_path a (k # ks)" .
    then have np: "normal_path a ks" using True by (metis normal_path.simps(2))
    show ?thesis
    proof (cases "x = k")
      case True
      then show ?thesis using \<open>k = ''..''\<close> by simp
    next
      case False
      then have "x \<in> set ks" using Cons.prems(2) by simp
      then show ?thesis using Cons.IH[OF np] by blast
    qed
  next
    case False
    then have "list_all plain_segment (k # ks)" using Cons.prems(1) by simp
    then have "plain_segment x" using Cons.prems(2) by (auto simp: list_all_iff)
    then show ?thesis by (simp add: plain_segment_def)
  qed
qed

lemma join_sep_empty_iff:
  "\<forall>x\<in>set ks. x \<noteq> [] \<Longrightarrow> (join_sep ks = []) = (ks = [])"
  by (induction ks rule: join_sep.induct) auto

lemma join_sep_hd:
  "ks \<noteq> [] \<Longrightarrow> \<forall>x\<in>set ks. x \<noteq> [] \<and> CHR ''/'' \<notin> set x \<Longrightarrow> hd (join_sep ks) \<noteq> CHR ''/''"
proof (induction ks rule: join_sep.induct)
  case 1
  then show ?case by simp
next
  case (2 s)
  then have "s \<noteq> []" and n: "CHR ''/'' \<notin> set s" by auto
  then have "hd s \<in> set s" by simp
  with n have "hd s \<noteq> CHR ''/''" by metis
  then show ?case by simp
next
  case (3 s t ts)
  then have "s \<noteq> []" and n: "CHR ''/'' \<notin> set s" by auto
  then have "hd s \<in> set s" by simp
  with n have "hd s \<noteq> CHR ''/''" by metis
  then show ?case using \<open>s \<noteq> []\<close> by simp
qed

lemma join_sep_last:
  "ks \<noteq> [] \<Longrightarrow> \<forall>x\<in>set ks. x \<noteq> [] \<and> CHR ''/'' \<notin> set x \<Longrightarrow> last (join_sep ks) \<noteq> CHR ''/''"
proof (induction ks rule: join_sep.induct)
  case 1
  then show ?case by simp
next
  case (2 s)
  then have "s \<noteq> []" and n: "CHR ''/'' \<notin> set s" by auto
  then have "last s \<in> set s" by simp
  with n have "last s \<noteq> CHR ''/''" by metis
  then show ?case by simp
next
  case (3 s t ts)
  have ne: "join_sep (t # ts) \<noteq> []"
    using 3(3) join_sep_empty_iff[of "t # ts"] by auto
  have "last (join_sep (t # ts)) \<noteq> CHR ''/''"
    using 3 by simp
  then show ?case using ne by simp
qed

lemma posix_normalize_rebuilt:
  assumes np: "normal_path (\<not> isAbs) ks" and ne: "ks \<noteq> []"
  shows "posix_normalize ((if isAbs then ''/'' else []) @ join_sep ks @ (if tr then ''/'' else []))
       = (if isAbs then ''/'' else []) @ join_sep ks @ (if tr then ''/'' else [])"
proof -
  have seg: "\<forall>x\<in>set ks. x \<noteq> [] \<and> CHR ''/'' \<notin> set x"
    using normal_path_segments[OF np] by blast
  then have nosep: "\<forall>x\<in>set ks. CHR ''/'' \<notin> set x" and nonempty: "\<forall>x\<in>set ks. x \<noteq> []"
    by blast+
  let ?J = "join_sep ks"
  have J: "?J \<noteq> []" using join_sep_empty_iff[OF nonempty] ne by simp
  have h: "hd ?J \<noteq> CHR ''/''" by (rule join_sep_hd[OF ne seg])
  have l: "last ?J \<noteq> CHR ''/''" by (rule join_sep_last[OF ne seg])
  have sp: "split_sep ?J = ks" by (rule split_join_sep[OF ne nosep])
  have sp1: "split_sep (?J @ ''/'') = ks @ [[]]"
    using split_sep_snoc[of ?J] sp by simp
  have ns: "normalizeString (\<not> isAbs) [] ks = ks"
    using normalizeString_of_normal[of "\<not> isAbs" "[]" ks] np by simp
  have ns1: "normalizeString (\<not> isAbs) [] (ks @ [[]]) = ks"
    using normalizeString_snoc_empty[of "\<not> isAbs" "[]" ks] ns by simp
  have sk: "\<And>xs. normalizeString (\<not> isAbs) [] ([] # xs) = normalizeString (\<not> isAbs) [] xs"
    by simp
  show ?thesis
  proof (cases isAbs)
    case True
    show ?thesis
    proof (cases tr)
      case True
      have "posix_normalize (CHR ''/'' # ?J @ ''/'') = CHR ''/'' # ?J @ ''/''"
        using J sp1 ns1 sk \<open>isAbs\<close> by (simp add: posix_normalize_def)
      then show ?thesis using \<open>isAbs\<close> True by simp
    next
      case False
      have "posix_normalize (CHR ''/'' # ?J) = CHR ''/'' # ?J"
        using J l sp ns sk \<open>isAbs\<close> by (simp add: posix_normalize_def)
      then show ?thesis using \<open>isAbs\<close> False by simp
    qed
  next
    case False
    show ?thesis
    proof (cases tr)
      case True
      have "posix_normalize (?J @ ''/'') = ?J @ ''/''"
        using J h sp1 ns1 \<open>\<not> isAbs\<close> by (simp add: posix_normalize_def)
      then show ?thesis using \<open>\<not> isAbs\<close> True by simp
    next
      case tf: False
      have "posix_normalize ?J = ?J"
        using J h l sp ns \<open>\<not> isAbs\<close> by (simp add: posix_normalize_def)
      then show ?thesis using \<open>\<not> isAbs\<close> tf by simp
    qed
  qed
qed

lemma kept_segments_normal: "normal_path (\<not> posix_isAbsolute q) (kept_segments q)"
  unfolding kept_segments_def
  by (rule normalizeString_normal) (auto dest: split_sep_no_sep)

lemma posix_normalize_shape:
  assumes "q \<noteq> []"
  shows "posix_normalize q =
     (if kept_segments q = [] then
        (if posix_isAbsolute q then ''/'' else if last q = CHR ''/'' then ''./'' else ''.'')
      else (if posix_isAbsolute q then ''/'' else []) @ join_sep (kept_segments q)
             @ (if last q = CHR ''/'' then ''/'' else []))"
proof -
  have ab: "posix_isAbsolute q = (hd q = CHR ''/'')"
    using assms by (simp add: posix_isAbsolute_def)
  have ks: "normalizeString (hd q \<noteq> CHR ''/'') [] (split_sep q) = kept_segments q"
    by (simp add: kept_segments_def ab)
  have "\<forall>x\<in>set (kept_segments q). x \<noteq> []"
    using normal_path_segments[OF kept_segments_normal[of q]] by blast
  then have e: "(join_sep (kept_segments q) = []) = (kept_segments q = [])"
    by (rule join_sep_empty_iff)
  show ?thesis
    using assms by (simp add: posix_normalize_def Let_def ks e ab)
qed

lemma posix_normalize_idem: "posix_normalize (posix_normalize q) = posix_normalize q"
proof (cases "q = []")
  case True
  then show ?thesis by (simp add: posix_normalize_def)
next
  case False
  show ?thesis
  proof (cases "kept_segments q = []")
    case True
    have "posix_normalize q = ''/'' \<or> posix_normalize q = ''./'' \<or> posix_normalize q = ''.''"
      using posix_normalize_shape[OF False] True by simp
    moreover have "posix_normalize ''/'' = ''/''" "posix_normalize ''./'' = ''./''"
      "posix_normalize ''.'' = ''.''"
      by (simp_all add: posix_normalize_def)
    ultimately show ?thesis by auto
  next
    case ne: False
    have "posix_normalize q =
        (if posix_isAbsolute q then ''/'' else []) @ join_sep (kept_segments q)
          @ (if last q = CHR ''/'' then ''/'' else [])"
      using posix_normalize_shape[OF False] ne by simp
    then show ?thesis
      using posix_normalize_rebuilt[OF kept_segments_normal[of q] ne, of "last q = CHR ''/''"]
      by simp
  qed
qed

lemma posix_join_idem: "posix_normalize (posix_join paths) = posix_join paths"
  by (simp add: posix_join_def Let_def posix_normalize_idem posix_normalize_dot)

lemma posix_join_shape:
  "posix_join paths =
     (if join_arguments paths = [] then ''.'' else posix_normalize (join_arguments paths))"
  by (simp add: posix_join_def join_arguments_def Let_def)

lemma posix_join_collapsed:
  assumes "kept_segments (join_arguments paths) = []"
  shows "posix_join paths =
     (if posix_isAbsolute (join_arguments paths) then ''/''
      else if join_arguments paths \<noteq> [] \<and> last (join_arguments paths) = CHR ''/'' then ''./''
      else ''.'')"
proof (cases "join_arguments paths = []")
  case True
  then show ?thesis by (simp add: posix_join_shape posix_isAbsolute_def)
next
  case False
  then show ?thesis
    using posix_normalize_shape[OF False] assms by (simp add: posix_join_shape)
qed

section \<open>The cache of \<open>parse()\<close>\<close>

lemma run_cached:
  assumes "fp_parts q = Some c" and "c < length h"
    and "run steps (q, h, n) = (rs, (q', h', n'))"
  shows "q' = q \<and> n' = n \<and> length h' = length h
     \<and> list_all (\<lambda>r. r = c) rs
     \<and> length rs = length (filter (\<lambda>a. a = Call_parse) steps)
     \<and> (list_all (\<lambda>a. \<not> assigns_to c a) steps \<longrightarrow> h' ! c = h ! c)"
  using assms
proof (induction steps arbitrary: h rs)
  case Nil
  then show ?case by simp
next
  case (Cons a steps)
  show ?case
  proof (cases a)
    case Call_parse
    have step: "Filepath_parse (q, h, n) = (c, (q, h, n))"
      using Cons.prems(1) by (simp add: Filepath_parse_def)
    obtain rs0 where rest: "run steps (q, h, n) = (rs0, (q', h', n'))" and rs: "rs = c # rs0"
      using Cons.prems(3) Call_parse step by (auto split: prod.splits)
    from Cons.IH[OF Cons.prems(1,2) rest] rs Call_parse show ?thesis by simp
  next
    case (Assign r f x)
    let ?h = "if r < length h then h[r := assign_field f x (h ! r)] else h"
    have rest: "run steps (q, ?h, n) = (rs, (q', h', n'))"
      using Cons.prems(3) Assign by simp
    have len: "c < length ?h" using Cons.prems(2) by simp
    have same: "r \<noteq> c \<Longrightarrow> ?h ! c = h ! c" by simp
    from Cons.IH[OF Cons.prems(1) len rest] Assign same show ?thesis by auto
  next
    case (Call_basename ext)
    then have rest: "run steps (q, h, n) = (rs, (q', h', n'))"
      using Cons.prems(3) by simp
    from Cons.IH[OF Cons.prems(1,2) rest] Call_basename show ?thesis by simp
  next
    case (Call_dirname opts)
    then have rest: "run steps (q, h, n) = (rs, (q', h', n'))"
      using Cons.prems(3) by simp
    from Cons.IH[OF Cons.prems(1,2) rest] Call_dirname show ?thesis by simp
  next
    case Call_extname
    then have rest: "run steps (q, h, n) = (rs, (q', h', n'))"
      using Cons.prems(3) by simp
    from Cons.IH[OF Cons.prems(1,2) rest] Call_extname show ?thesis by simp
  next
    case Call_isAbsolute
    then have rest: "run steps (q, h, n) = (rs, (q', h', n'))"
      using Cons.prems(3) by simp
    from Cons.IH[OF Cons.prems(1,2) rest] Call_isAbsolute show ?thesis by simp
  next
    case (Call_join paths)
    then have rest: "run steps (q, h, n) = (rs, (q', h', n'))"
      using Cons.prems(3) by simp
    from Cons.IH[OF Cons.prems(1,2) rest] Call_join show ?thesis by simp
  qed
qed

lemma run_fresh:
  assumes "fp_parts q = None"
    and "run steps (q, h, n) = (rs, (q', h', n'))"
  shows "list_all (\<lambda>r. r = length h) rs
     \<and> length rs = length (filter (\<lambda>a. a = Call_parse) steps)
     \<and> n' = n + min (length rs) 1
     \<and> length h' = length h + min (length rs) 1
     \<and> q' = (if rs = [] then q else q\<lparr>fp_parts := Some (length h)\<rparr>)
     \<and> (rs \<noteq> [] \<and> list_all (\<lambda>a. \<not> assigns_to (length h) a) steps
          \<longrightarrow> h' ! length h = parse (fp_pathApi q) (fp_value q))"
  using assms
proof (induction steps arbitrary: h)
  case Nil
  then show ?case by simp
next
  case (Cons a steps)
  show ?case
  proof (cases a)
    case Call_parse
    let ?q1 = "q\<lparr>fp_parts := Some (length h)\<rparr>"
    let ?h1 = "h @ [parse (fp_pathApi q) (fp_value q)]"
    have step: "Filepath_parse (q, h, n) = (length h, (?q1, ?h1, Suc n))"
      using Cons.prems(1) by (simp add: Filepath_parse_def Let_def)
    obtain rs0 where rest: "run steps (?q1, ?h1, Suc n) = (rs0, (q', h', n'))"
      and rs: "rs = length h # rs0"
      using Cons.prems(2) Call_parse step by (auto split: prod.splits)
    have c: "fp_parts ?q1 = Some (length h)" by simp
    have l: "length h < length ?h1" by simp
    from run_cached[OF c l rest] rs Call_parse show ?thesis by simp
  next
    case (Assign r f x)
    let ?h = "if r < length h then h[r := assign_field f x (h ! r)] else h"
    have rest: "run steps (q, ?h, n) = (rs, (q', h', n'))"
      using Cons.prems(2) Assign by simp
    have len: "length ?h = length h" by simp
    from Cons.IH[OF Cons.prems(1) rest] Assign show ?thesis
      unfolding len by auto
  next
    case (Call_basename ext)
    then have rest: "run steps (q, h, n) = (rs, (q', h', n'))"
      using Cons.prems(2) by simp
    from Cons.IH[OF Cons.prems(1) rest] Call_basename show ?thesis by simp
  next
    case (Call_dirname opts)
    then have rest: "run steps (q, h, n) = (rs, (q', h', n'))"
      using Cons.prems(2) by simp
    from Cons.IH[OF Cons.prems(1) rest] Call_dirname show ?thesis by simp
  next
    case Call_extname
    then have rest: "run steps (q, h, n) = (rs, (q', h', n'))"
      using Cons.prems(2) by simp
    from Cons.IH[OF Cons.prems(1) rest] Call_extname show ?thesis by simp
  next
    case Call_isAbsolute
    then have rest: "run steps (q, h, n) = (rs, (q', h', n'))"
      using Cons.prems(2) by simp
    from Cons.IH[OF Cons.prems(1) rest] Call_isAbsolute show ?thesis by simp
  next
    case (Call_join paths)
    then have rest: "run steps (q, h, n) = (rs, (q', h', n'))"
      using Cons.prems(2) by simp
    from Cons.IH[OF Cons.prems(1) rest] Call_join show ?thesis by simp
  qed
qed

section \<open>The claims\<close>

text \<open>
  C1, as amended. For every input string \<open>s\<close> and every path API, the later revision of
  the constructor stores \<open>normalize(s)\<close>, computed by the path API that is bound to the new
  object; the revision of the constructor in \<open>src/v1/Filepath/Filepath.ts\<close> stores \<open>s\<close>
  itself. Both keep the \<open>base\<close> option and the path API, and neither fails.
\<close>

theorem constructor_stores:
  "Filepath_constructor path s opts =
     Inr \<lparr>fp_value = normalize_path (case pathApi opts of None \<Rightarrow> path | Some a \<Rightarrow> a) s,
          fp_base = base opts,
          fp_pathApi = (case pathApi opts of None \<Rightarrow> path | Some a \<Rightarrow> a),
          fp_parts = None\<rparr>
   \<and> Filepath_constructor_verbatim path s opts =
     Inr \<lparr>fp_value = s,
          fp_base = base opts,
          fp_pathApi = (case pathApi opts of None \<Rightarrow> path | Some a \<Rightarrow> a),
          fp_parts = None\<rparr>"
  by (simp add: Filepath_constructor_result Filepath_constructor_verbatim_result)

text \<open>
  C1, as stated, fails for the constructor of \<open>src/v1/Filepath/Filepath.ts\<close>: with the
  POSIX path API and the input \<open>a/../b\<close> it stores \<open>a/../b\<close>, which is not what
  \<open>normalize\<close> returns for that input.
\<close>

theorem constructor_verbatim_counterexample:
  "Filepath_constructor_verbatim (posix ''/'') ''a/../b'' no_options =
     Inr \<lparr>fp_value = ''a/../b'', fp_base = None, fp_pathApi = posix ''/'', fp_parts = None\<rparr>
   \<and> normalize_path (posix ''/'') ''a/../b'' \<noteq> ''a/../b''"
  by (simp add: Filepath_constructor_verbatim_result no_options_def posix_def
      posix_normalize_dotdot)

text \<open>
  The example of C2: from the input \<open>a/../b\<close>, under the POSIX path API, the later
  revision builds a \<open>Filepath\<close> whose string value is \<open>b\<close>, and the revision of
  \<open>src/v1/Filepath/Filepath.ts\<close> one whose string value is \<open>a/../b\<close>.
\<close>

lemma constructors_differ_at_dotdot:
  "\<exists>fp fp1.
     Filepath_constructor (posix cwd) ''a/../b'' no_options = Inr fp
     \<and> Filepath_constructor_verbatim (posix cwd) ''a/../b'' no_options = Inr fp1
     \<and> fp_value fp = ''b'' \<and> fp_value fp1 = ''a/../b''"
  by (simp add: Filepath_constructor_result Filepath_constructor_verbatim_result no_options_def
      posix_def posix_normalize_dotdot)

text \<open>
  C2. The two revisions of the class are observably different: there is a path API and an
  input string from which the two constructors build \<open>Filepath\<close>s with different string
  values.
\<close>

theorem constructors_differ:
  "\<exists>api s fp fp1.
     Filepath_constructor api s no_options = Inr fp
     \<and> Filepath_constructor_verbatim api s no_options = Inr fp1
     \<and> fp_value fp \<noteq> fp_value fp1"
proof -
  obtain fp fp1 where
    "Filepath_constructor (posix ''/'') ''a/../b'' no_options = Inr fp"
    "Filepath_constructor_verbatim (posix ''/'') ''a/../b'' no_options = Inr fp1"
    "fp_value fp = ''b''" "fp_value fp1 = ''a/../b''"
    using constructors_differ_at_dotdot[of "''/''"] by blast
  moreover from this have "fp_value fp \<noteq> fp_value fp1" by simp
  ultimately show ?thesis by blast
qed

text \<open>
  C3. The validator returns every input unchanged and never an error. So the contract
  \<open>mustBeFilepathData\<close> returns the input whatever the handler is, and both constructors
  build a \<open>Filepath\<close> for every input and every choice of options: no \<open>onError\<close> handler
  is ever invoked.
\<close>

theorem validator_accepts_every_string:
  "validateFilepathData input dataPath = Inr input
   \<and> mustBeFilepathData input handler = Inr input
   \<and> (\<exists>fp. Filepath_constructor path input opts = Inr fp)
   \<and> (\<exists>fp. Filepath_constructor_verbatim path input opts = Inr fp)"
  by (simp add: validateFilepathData_def mustBeFilepathData_accepts
      Filepath_constructor_result Filepath_constructor_verbatim_result)

text \<open>
  C4. For every \<open>Filepath\<close> \<open>p\<close>, \<open>p.join(...segments)\<close> and \<open>p.dirname()\<close> called
  without a \<open>base\<close> and without a \<open>pathApi\<close> option return a \<open>Filepath\<close> with the base
  and the path API of \<open>p\<close>.
\<close>

theorem derived_keep_base_and_pathApi:
  "\<exists>j d.
     Filepath_join path p segments = Inr j
     \<and> fp_base j = fp_base p \<and> fp_pathApi j = fp_pathApi p
     \<and> Filepath_dirname path p \<lparr>onError = h, pathApi = None, base = None\<rparr> = Inr d
     \<and> fp_base d = fp_base p \<and> fp_pathApi d = fp_pathApi p"
  by (simp add: Filepath_join_result Filepath_dirname_result)

text \<open>
  C5, as amended. Take a \<open>Filepath\<close> as the constructor returns it, and let its holder call
  \<open>parse()\<close> and the other methods and assign fields of \<open>ParsedPath\<close> objects, in any
  order. The path API's
  \<open>parse\<close> is invoked at most once, and exactly once when \<open>parse()\<close> is called at all;
  every call of \<open>parse()\<close> returns the same object, the one that \<open>#_parts\<close> refers to from
  the first call on, so two calls return structurally equal results; the string value,
  the path API and the base never change. \<open>parse()\<close> returns the cached object itself and
  not a copy: the cache holds the decomposition of the string value as long as no field of
  that object is assigned.
\<close>

theorem parse_is_computed_once:
  assumes "Filepath_constructor path input opts = Inr p"
    and "run steps (p, objects, 0) = (rs, (p', objects', calls))"
  shows "calls \<le> 1
     \<and> calls = min (length rs) 1
     \<and> length rs = length (filter (\<lambda>a. a = Call_parse) steps)
     \<and> list_all (\<lambda>r. r = length objects) rs
     \<and> fp_parts p' = (if rs = [] then None else Some (length objects))
     \<and> fp_value p' = fp_value p \<and> fp_pathApi p' = fp_pathApi p \<and> fp_base p' = fp_base p
     \<and> length objects' = length objects + calls
     \<and> (list_all (\<lambda>a. \<not> assigns_to (length objects) a) steps \<longrightarrow> cache_consistent p' objects')"
proof -
  have fresh: "fp_parts p = None"
    using assms(1) by (auto simp: Filepath_constructor_result)
  note f = run_fresh[OF fresh assms(2)]
  have calls: "calls = min (length rs) 1" using f by simp
  have len: "length rs = length (filter (\<lambda>a. a = Call_parse) steps)" using f by blast
  have same: "list_all (\<lambda>r. r = length objects) rs" using f by blast
  have p': "p' = (if rs = [] then p else p\<lparr>fp_parts := Some (length objects)\<rparr>)"
    using f by blast
  have parts: "fp_parts p' = (if rs = [] then None else Some (length objects))"
    using p' fresh by simp
  have kept: "fp_value p' = fp_value p \<and> fp_pathApi p' = fp_pathApi p \<and> fp_base p' = fp_base p"
    using p' by simp
  have size: "length objects' = length objects + calls" using f calls by simp
  have cons: "cache_consistent p' objects'"
    if quiet: "list_all (\<lambda>a. \<not> assigns_to (length objects) a) steps"
  proof (cases "rs = []")
    case True
    then show ?thesis using parts by (simp add: cache_consistent_def)
  next
    case False
    have obj: "objects' ! length objects = parse (fp_pathApi p) (fp_value p)"
      using f False quiet by blast
    have "length rs \<noteq> 0" using False by simp
    then have "length objects < length objects'" using size calls by simp
    then show ?thesis using parts False obj kept by (simp add: cache_consistent_def)
  qed
  from calls have "calls \<le> 1" by simp
  with calls len same parts kept size cons show ?thesis by blast
qed

text \<open>
  C5 on an example: two calls of \<open>parse()\<close> on \<open>new Filepath("/tmp/example/file.ts")\<close>
  under the POSIX path API, with a call of \<open>extname()\<close> between them, return the same
  object and invoke the path API once, and the cache is consistent with the string value.
\<close>

theorem parse_is_computed_once_witness:
  "\<exists>p p' objects'.
     Filepath_constructor (posix ''/'') ''/tmp/example/file.ts'' no_options = Inr p
     \<and> run [Call_parse, Call_extname, Call_parse] (p, [], 0) = ([0, 0], (p', objects', 1))
     \<and> list_all (\<lambda>a. \<not> assigns_to 0 a) [Call_parse, Call_extname, Call_parse]
     \<and> fp_parts p' = Some 0
     \<and> fp_value p' = fp_value p
     \<and> cache_consistent p' objects'"
proof -
  let ?v = "''/tmp/example/file.ts''"
  let ?p = "\<lparr>fp_value = posix_normalize ?v, fp_base = None, fp_pathApi = posix ''/'',
             fp_parts = None\<rparr>"
  let ?obj = "parse (fp_pathApi ?p) (fp_value ?p)"
  have c: "Filepath_constructor (posix ''/'') ?v no_options = Inr ?p"
    by (simp add: Filepath_constructor_result no_options_def posix_def)
  have t: "run [Call_parse, Call_extname, Call_parse] (?p, [], 0)
         = ([0, 0], (?p\<lparr>fp_parts := Some 0\<rparr>, [?obj], 1))"
    by (simp add: Filepath_parse_def Let_def)
  have q: "list_all (\<lambda>a. \<not> assigns_to (length ([]::store)) a) [Call_parse, Call_extname, Call_parse]"
    by simp
  from parse_is_computed_once[OF c t] q
  have "fp_parts (?p\<lparr>fp_parts := Some 0\<rparr>) = Some 0
      \<and> fp_value (?p\<lparr>fp_parts := Some 0\<rparr>) = fp_value ?p
      \<and> cache_consistent (?p\<lparr>fp_parts := Some 0\<rparr>) [?obj]"
    by simp
  with c t q show ?thesis
    by (intro exI[of _ ?p] exI[of _ "?p\<lparr>fp_parts := Some 0\<rparr>"] exI[of _ "[?obj]"]) simp
qed

text \<open>
  C5, as stated, fails where it says that the cached decomposition always corresponds to
  the string value: after \<open>const parts = p.parse(); parts.base = "x"\<close> the object in the
  cache has the base \<open>x\<close>, the next \<open>p.parse()\<close> returns that object, and it is no longer
  the decomposition of \<open>/tmp/example/file.ts\<close>.
\<close>

theorem parse_result_assigned_counterexample:
  "Filepath_constructor (posix ''/'') ''/tmp/example/file.ts'' no_options =
     Inr \<lparr>fp_value = ''/tmp/example/file.ts'', fp_base = None, fp_pathApi = posix ''/'',
          fp_parts = None\<rparr>
   \<and> run [Call_parse, Assign 0 Field_base ''x'', Call_parse]
        (\<lparr>fp_value = ''/tmp/example/file.ts'', fp_base = None, fp_pathApi = posix ''/'',
           fp_parts = None\<rparr>, [], 0)
      = ([0, 0],
         (\<lparr>fp_value = ''/tmp/example/file.ts'', fp_base = None, fp_pathApi = posix ''/'',
            fp_parts = Some 0\<rparr>,
          [\<lparr>pp_root = ''/'', pp_dir = ''/tmp/example'', pp_base = ''x'', pp_name = ''file'',
            pp_ext = ''.ts''\<rparr>],
          1))
   \<and> \<not> cache_consistent
         \<lparr>fp_value = ''/tmp/example/file.ts'', fp_base = None, fp_pathApi = posix ''/'',
            fp_parts = Some 0\<rparr>
         [\<lparr>pp_root = ''/'', pp_dir = ''/tmp/example'', pp_base = ''x'', pp_name = ''file'',
           pp_ext = ''.ts''\<rparr>]"
proof -
  have n: "posix_normalize ''/tmp/example/file.ts'' = ''/tmp/example/file.ts''"
    by (simp add: posix_normalize_def)
  show ?thesis
    by (simp add: Filepath_constructor_result no_options_def n Filepath_parse_def Let_def
        cache_consistent_def posix_def posix_parse_test)
qed

text \<open>
  C6, as amended. \<open>p.join(...segments)\<close> always returns a \<open>Filepath\<close>, and its string
  value is what the bound path API computes: \<open>normalize(join(value, ...segments))\<close>. So it
  is not empty for any path API whose \<open>normalize\<close> never returns the empty string. Under
  the POSIX path API the string value is \<open>join(value, ...segments)\<close> itself (normalising
  it again changes nothing) and is never empty; and when all inputs collapse to nothing,
  that is, when normalisation keeps no segment of the joined path, the result is \<open>/\<close> if
  the joined path is absolute, \<open>./\<close> if it is relative and ends with a separator, and the
  current-directory token \<open>.\<close> otherwise.
\<close>

theorem Filepath_join_never_empty:
  "\<exists>j. Filepath_join path p segments = Inr j
      \<and> fp_value j =
          normalize_path (fp_pathApi p) (join (fp_pathApi p) (fp_value p # segments))
      \<and> ((\<forall>s. normalize_path (fp_pathApi p) s \<noteq> []) \<longrightarrow> fp_value j \<noteq> [])
      \<and> (fp_pathApi p = posix cwd \<longrightarrow>
           fp_value j = posix_join (fp_value p # segments)
           \<and> fp_value j \<noteq> []
           \<and> (kept_segments (join_arguments (fp_value p # segments)) = [] \<longrightarrow>
                fp_value j =
                  (if posix_isAbsolute (join_arguments (fp_value p # segments)) then ''/''
                   else if join_arguments (fp_value p # segments) \<noteq> []
                           \<and> last (join_arguments (fp_value p # segments)) = CHR ''/''
                        then ''./''
                   else ''.'')))"
proof -
  let ?j = "\<lparr>fp_value = normalize_path (fp_pathApi p) (join (fp_pathApi p) (fp_value p # segments)),
          fp_base = fp_base p, fp_pathApi = fp_pathApi p, fp_parts = None\<rparr>"
  have res: "Filepath_join path p segments = Inr ?j"
    by (rule Filepath_join_result)
  have general: "(\<forall>s. normalize_path (fp_pathApi p) s \<noteq> []) \<longrightarrow> fp_value ?j \<noteq> []"
    by simp
  have px: "fp_value ?j = posix_join (fp_value p # segments)
           \<and> fp_value ?j \<noteq> []
           \<and> (kept_segments (join_arguments (fp_value p # segments)) = [] \<longrightarrow>
                fp_value ?j =
                  (if posix_isAbsolute (join_arguments (fp_value p # segments)) then ''/''
                   else if join_arguments (fp_value p # segments) \<noteq> []
                           \<and> last (join_arguments (fp_value p # segments)) = CHR ''/''
                        then ''./''
                   else ''.''))" if api: "fp_pathApi p = posix cwd"
  proof -
    have v: "fp_value ?j = posix_join (fp_value p # segments)"
      by (simp add: api posix_def posix_join_idem)
    have ne: "fp_value ?j \<noteq> []"
      unfolding v by (rule posix_join_not_empty)
    from v ne posix_join_collapsed[of "fp_value p # segments"] show ?thesis by presburger
  qed
  show ?thesis
  proof (intro exI[of _ ?j] conjI)
    show "Filepath_join path p segments = Inr ?j" by (rule res)
    show "fp_value ?j =
        normalize_path (fp_pathApi p) (join (fp_pathApi p) (fp_value p # segments))"
      by simp
    show "(\<forall>s. normalize_path (fp_pathApi p) s \<noteq> []) \<longrightarrow> fp_value ?j \<noteq> []"
      by (rule general)
    show "fp_pathApi p = posix cwd \<longrightarrow>
           fp_value ?j = posix_join (fp_value p # segments)
           \<and> fp_value ?j \<noteq> []
           \<and> (kept_segments (join_arguments (fp_value p # segments)) = [] \<longrightarrow>
                fp_value ?j =
                  (if posix_isAbsolute (join_arguments (fp_value p # segments)) then ''/''
                   else if join_arguments (fp_value p # segments) \<noteq> []
                           \<and> last (join_arguments (fp_value p # segments)) = CHR ''/''
                        then ''./''
                   else ''.''))"
      using px by blast
  qed
qed

text \<open>
  C6 on an example: \<open>new Filepath("")\<close> under the POSIX path API has the string value
  \<open>.\<close>, and joining it with two empty segments gives \<open>.\<close> again.
\<close>

theorem Filepath_join_never_empty_witness:
  "\<exists>p j. Filepath_constructor (posix ''/home'') [] no_options = Inr p
      \<and> fp_pathApi p = posix ''/home''
      \<and> (\<forall>s. normalize_path (fp_pathApi p) s \<noteq> [])
      \<and> kept_segments (join_arguments (fp_value p # [[], []])) = []
      \<and> Filepath_join (posix ''/home'') p [[], []] = Inr j
      \<and> fp_value j \<noteq> [] \<and> fp_value j = ''.''"
proof -
  let ?p = "\<lparr>fp_value = ''.'', fp_base = None, fp_pathApi = posix ''/home'', fp_parts = None\<rparr>"
  have c: "Filepath_constructor (posix ''/home'') [] no_options = Inr ?p"
    by (simp add: Filepath_constructor_result no_options_def posix_def posix_normalize_def)
  have api: "fp_pathApi ?p = posix ''/home''" by simp
  have ne: "\<forall>s. normalize_path (fp_pathApi ?p) s \<noteq> []"
    by (simp add: posix_def posix_normalize_not_empty)
  have k: "kept_segments (join_arguments (fp_value ?p # [[], []])) = []"
    by (simp add: kept_segments_def join_arguments_def posix_isAbsolute_def)
  have dot: "posix_join (fp_value ?p # [[], []]) = ''.''"
    by (simp add: posix_join_def posix_normalize_def)
  obtain j where j: "Filepath_join (posix ''/home'') ?p [[], []] = Inr j"
    and v: "fp_pathApi ?p = posix ''/home'' \<longrightarrow>
              fp_value j = posix_join (fp_value ?p # [[], []]) \<and> fp_value j \<noteq> []"
    using Filepath_join_never_empty[of "posix ''/home''" ?p "[[], []]" "''/home''"] by blast
  from v api dot have "fp_value j \<noteq> [] \<and> fp_value j = ''.''" by simp
  with c api ne k j show ?thesis by blast
qed

text \<open>
  C6, as stated, fails where it says that the result is \<open>.\<close> whenever all inputs
  collapse to nothing: under the POSIX path API, \<open>new Filepath("a").join("../")\<close> has the
  string value \<open>./\<close>, and \<open>new Filepath("/a").join("..")\<close> has the string value \<open>/\<close>.
\<close>

theorem Filepath_join_collapse_counterexample:
  "Filepath_constructor (posix ''/'') ''a'' no_options =
     Inr \<lparr>fp_value = ''a'', fp_base = None, fp_pathApi = posix ''/'', fp_parts = None\<rparr>
   \<and> kept_segments (join_arguments [''a'', ''../'']) = []
   \<and> Filepath_join (posix ''/'')
        \<lparr>fp_value = ''a'', fp_base = None, fp_pathApi = posix ''/'', fp_parts = None\<rparr> [''../'']
      = Inr \<lparr>fp_value = ''./'', fp_base = None, fp_pathApi = posix ''/'', fp_parts = None\<rparr>
   \<and> ''./'' \<noteq> ''.''
   \<and> Filepath_constructor (posix ''/'') ''/a'' no_options =
     Inr \<lparr>fp_value = ''/a'', fp_base = None, fp_pathApi = posix ''/'', fp_parts = None\<rparr>
   \<and> kept_segments (join_arguments [''/a'', ''..'']) = []
   \<and> Filepath_join (posix ''/'')
        \<lparr>fp_value = ''/a'', fp_base = None, fp_pathApi = posix ''/'', fp_parts = None\<rparr> [''..'']
      = Inr \<lparr>fp_value = ''/'', fp_base = None, fp_pathApi = posix ''/'', fp_parts = None\<rparr>
   \<and> ''/'' \<noteq> ''.''"
  by (simp add: Filepath_constructor_result Filepath_join_result no_options_def posix_def
      posix_normalize_def posix_join_def kept_segments_def join_arguments_def
      posix_isAbsolute_def)

text \<open>
  C7. The \<open>Filepath\<close> constructed from \<open>example.ts\<close> (by either revision of the class,
  under the POSIX path API) has \<open>basename(".ts")\<close> equal to \<open>example\<close> and
  \<open>basename(".php")\<close> equal to \<open>example.ts\<close>: a suffix that does not match is ignored.
\<close>

theorem basename_strips_matching_suffix:
  "\<exists>p p1.
     Filepath_constructor (posix cwd) ''example.ts'' no_options = Inr p
     \<and> Filepath_basename p (Some ''.ts'') = ''example''
     \<and> Filepath_basename p (Some ''.php'') = ''example.ts''
     \<and> Filepath_constructor_verbatim (posix cwd) ''example.ts'' no_options = Inr p1
     \<and> Filepath_basename p1 (Some ''.ts'') = ''example''
     \<and> Filepath_basename p1 (Some ''.php'') = ''example.ts''"
  by (simp add: Filepath_constructor_result Filepath_constructor_verbatim_result no_options_def
      Filepath_basename_def posix_def posix_normalize_example_ts
      posix_basename_def last_segment_def ends_with_def)

text \<open>
  C8. Under the POSIX path API, the \<open>Filepath\<close> constructed from \<open>.bashrc\<close> has an empty
  \<open>extname()\<close>, and the one constructed from \<open>a.b.c\<close> has \<open>extname()\<close> equal to \<open>.c\<close>.
\<close>

theorem extname_of_dotfile_and_of_last_suffix:
  "\<exists>p q.
     Filepath_constructor (posix cwd) ''.bashrc'' no_options = Inr p
     \<and> Filepath_extname p = []
     \<and> Filepath_constructor (posix cwd) ''a.b.c'' no_options = Inr q
     \<and> Filepath_extname q = ''.c''"
  by (simp add: Filepath_constructor_result no_options_def Filepath_extname_def posix_def
      posix_normalize_bashrc posix_normalize_abc posix_extname_def last_segment_def)

text \<open>
  C9. For every \<open>Filepath\<close> \<open>p\<close>, \<open>p.resolve()\<close> called with zero segments returns a
  \<open>Filepath\<close> with the base and the path API of \<open>p\<close>, whose string value is the string
  value of \<open>p\<close> resolved by the path API against the base of \<open>p\<close>, or resolved alone when
  \<open>p\<close> has no base, and then normalised by the constructor. Under the POSIX path API of
  a process whose working directory \<open>cwd\<close> is absolute, the resolved path is already
  normalised and the \<open>Filepath\<close> returned is absolute.
\<close>

theorem resolve_without_segments:
  "\<exists>r. Filepath_resolve path p [] = Inr r
     \<and> fp_value r =
         normalize_path (fp_pathApi p)
           (resolve (fp_pathApi p)
              (case fp_base p of None \<Rightarrow> [fp_value p] | Some b \<Rightarrow> [b, fp_value p]))
     \<and> fp_base r = fp_base p \<and> fp_pathApi r = fp_pathApi p
     \<and> (fp_pathApi p = posix cwd \<and> posix_isAbsolute cwd \<longrightarrow>
          fp_value r =
            posix_resolve cwd (case fp_base p of None \<Rightarrow> [fp_value p] | Some b \<Rightarrow> [b, fp_value p])
          \<and> Filepath_isAbsolute r)"
proof -
  let ?args = "case fp_base p of None \<Rightarrow> [fp_value p] | Some b \<Rightarrow> [b, fp_value p]"
  let ?r = "\<lparr>fp_value = normalize_path (fp_pathApi p) (resolve (fp_pathApi p) ?args),
             fp_base = fp_base p, fp_pathApi = fp_pathApi p, fp_parts = None\<rparr>"
  have res: "Filepath_resolve path p [] = Inr ?r"
    by (simp add: Filepath_resolve_def Filepath_constructor_result split: option.split)
  have px: "fp_value ?r = posix_resolve cwd ?args \<and> Filepath_isAbsolute ?r"
    if api: "fp_pathApi p = posix cwd" and ab: "posix_isAbsolute cwd"
  proof -
    have v: "fp_value ?r = posix_resolve cwd ?args"
      by (simp add: api posix_def posix_normalize_resolve[OF ab])
    have "posix_isAbsolute (posix_resolve cwd ?args)"
      by (rule posix_resolve_isAbsolute[OF ab])
    then have "Filepath_isAbsolute ?r"
      unfolding Filepath_isAbsolute_def v by (simp add: api posix_def)
    with v show ?thesis by blast
  qed
  from res px show ?thesis by auto
qed

text \<open>
  C9 on an example: \<open>new Filepath("a/../b", { base: "/base" }).resolve()\<close> is \<open>/base/b\<close>.
\<close>

theorem resolve_without_segments_witness:
  "\<exists>p r. Filepath_constructor (posix ''/home/u'') ''a/../b''
            \<lparr>onError = None, pathApi = None, base = Some ''/base''\<rparr> = Inr p
      \<and> fp_pathApi p = posix ''/home/u'' \<and> posix_isAbsolute ''/home/u''
      \<and> Filepath_resolve (posix ''/home/u'') p [] = Inr r
      \<and> fp_value r = ''/base/b'' \<and> Filepath_isAbsolute r"
proof -
  let ?p = "\<lparr>fp_value = ''b'', fp_base = Some ''/base'', fp_pathApi = posix ''/home/u'',
             fp_parts = None\<rparr>"
  have c: "Filepath_constructor (posix ''/home/u'') ''a/../b''
            \<lparr>onError = None, pathApi = None, base = Some ''/base''\<rparr> = Inr ?p"
    by (simp add: Filepath_constructor_result posix_def posix_normalize_dotdot)
  have api: "fp_pathApi ?p = posix ''/home/u''" by simp
  have ab: "posix_isAbsolute ''/home/u''" by (simp add: posix_isAbsolute_def)
  from resolve_without_segments[of "posix ''/home/u''" ?p "''/home/u''"] c api ab
  show ?thesis by (auto simp: posix_resolve_example)
qed

text \<open>
  C10. Called without functional options, \<open>makeFilepath\<close> returns the \<open>Filepath\<close> that
  the constructor returns for the same input and the same options: the same string value,
  the same base and the same path API. This holds for either revision of the class.
\<close>

theorem makeFilepath_without_functional_options:
  "(\<exists>fp. makeFilepath Filepath_constructor path input opts [] = Inr fp
         \<and> Filepath_constructor path input opts = Inr fp)
   \<and> (\<exists>fp. makeFilepath Filepath_constructor_verbatim path input opts [] = Inr fp
         \<and> Filepath_constructor_verbatim path input opts = Inr fp)"
  by (simp add: makeFilepath_def Filepath_constructor_result Filepath_constructor_verbatim_result
      split: option.split)

end
